theory Spec2Isabelle
  imports Main "HOL-Library.Char_ord" "HOL-Library.List_Lexorder" "HOL-Library.Sublist" "HOL-Library.Word"
begin

section \<open>Data model of forkdiff (src/main.go)\<close>

text \<open>
  The go-git values the program reads. A \<open>diff.File\<close> has a hash, a mode and a path; a
  \<open>diff.FilePatch\<close> answers \<open>IsBinary\<close>, \<open>Files\<close> and \<open>Chunks\<close>. \<open>Files\<close> returns the
  pair that line 68 names \<open>from\<close> and \<open>to\<close>, here the fields \<open>fromFile\<close> and \<open>toFile\<close>;
  either may be \<open>nil\<close>, and a nil interface value is \<open>None\<close>.
\<close>

datatype Operation = Equal | Add | Delete

record Chunk =
  Content :: string
  Type :: Operation

record File =
  Hash :: string
  Mode :: "32 word"
  Path :: string

record diff_FilePatch =
  IsBinary :: bool
  fromFile :: "File option"
  toFile :: "File option"
  Chunks :: "Chunk list"

text \<open>
  The program's own \<open>FilePatch\<close> struct (lines 154-166) wraps one \<open>diff.FilePatch\<close> as a
  \<open>diff.Patch\<close>: \<open>FilePatches\<close> is the singleton list and \<open>Message\<close> is the empty string.
\<close>

datatype FilePatch = FilePatch (filePatch: diff_FilePatch)

definition FilePatches :: "FilePatch \<Rightarrow> diff_FilePatch list" where
  "FilePatches p = [filePatch p]"

definition Message :: "FilePatch \<Rightarrow> string" where
  "Message p = ''''"

text \<open>An entry of \<open>targetTree.Entries\<close> (go-git's \<open>object.TreeEntry\<close>).\<close>

record TreeEntry =
  Name :: string
  EntryMode :: "32 word"
  EntryHash :: string

text \<open>
  Errors as values. \<open>FindFilePatch path\<close> is
  \<open>fmt.Errorf("failed to find file patch %s", path)\<close> (line 96), \<open>EncodeFailed\<close> is
  \<open>fmt.Errorf("")\<close> (line 106), \<open>GlobMatch i name pattern\<close> is
  \<open>fmt.Errorf("failed to glob match entry %d (%q) against pattern %q", i, name, pattern)\<close>
  (line 124), and \<open>NilDereference\<close> is the run-time panic of calling \<open>Path\<close> on a nil
  \<open>diff.File\<close> (line 72).
\<close>

datatype error =
    FindFilePatch string
  | EncodeFailed
  | GlobMatch nat string string
  | NilDereference

text \<open>
  Formatted text, with \<open>%s\<close>, \<open>%d\<close>, \<open>%q\<close> and \<open>%v\<close> left as the arguments they
  format; \<open>error_message\<close> is the text of each error.
\<close>

datatype piece = Lit string | ArgS string | ArgD nat | ArgQ string | ArgV error

fun error_message :: "error \<Rightarrow> piece list" where
  "error_message (FindFilePatch path) = [Lit ''failed to find file patch '', ArgS path]"
| "error_message EncodeFailed = []"
| "error_message (GlobMatch i name pattern) =
     [Lit ''failed to glob match entry '', ArgD i, Lit '' ('', ArgQ name,
      Lit '') against pattern '', ArgQ pattern]"
| "error_message NilDereference =
     [Lit ''runtime error: invalid memory address or nil pointer dereference'']"

section \<open>Building the patch index and the remaining set (lines 66-78)\<close>

text \<open>
  \<open>patchByName\<close> is a Go map from path to file patch, here a partial function. The loop
  of lines 67-74 stores each file patch under \<open>to.Path()\<close> when \<open>to\<close> is not nil and
  under \<open>from.Path()\<close> otherwise. The standard error stream is threaded through the loop
  as the list of the texts written so far: the loop body holds no write to it.
\<close>

type_synonym index = "string \<rightharpoonup> diff_FilePatch"

fun index_patches ::
  "index \<times> piece list list \<Rightarrow> diff_FilePatch list \<Rightarrow> error + index \<times> piece list list" where
  "index_patches (patchByName, stderr) [] = Inr (patchByName, stderr)"
| "index_patches (patchByName, stderr) (fp # fps) =
     (case toFile fp of
        Some t \<Rightarrow> index_patches (patchByName(Path t \<mapsto> fp), stderr) fps
      | None \<Rightarrow>
          (case fromFile fp of
             Some f \<Rightarrow> index_patches (patchByName(Path f \<mapsto> fp), stderr) fps
           | None \<Rightarrow> Inl NilDereference))"

text \<open>
  The key under which the loop stores one file patch (lines 68-73), or \<open>None\<close> where it
  panics.
\<close>

definition index_key :: "diff_FilePatch \<Rightarrow> string option" where
  "index_key fp =
     (case toFile fp of Some t \<Rightarrow> Some (Path t) | None \<Rightarrow> map_option Path (fromFile fp))"

text \<open>
  Go's \<open>range\<close> over a map yields every key once, in an order the language leaves open.
  \<open>range_order S ks\<close> says that \<open>ks\<close> is one such order for the key set \<open>S\<close>; the loops over
  maps take the order as their argument.
\<close>

definition range_order :: "string set \<Rightarrow> string list \<Rightarrow> bool" where
  "range_order S ks \<longleftrightarrow> distinct ks \<and> set ks = S"

text \<open>Lines 75-78: \<open>remaining[k] = struct{}{}\<close> for every key \<open>k\<close> of \<open>patchByName\<close>.\<close>

fun init_remaining :: "string set \<Rightarrow> string list \<Rightarrow> string set" where
  "init_remaining remaining [] = remaining"
| "init_remaining remaining (k # ks) = init_remaining (insert k remaining) ks"

section \<open>The template functions (lines 89-131)\<close>

text \<open>
  \<open>renderPatch\<close> (lines 93-110). The unified encoder of go-git and the terminal-to-HTML
  renderer are libraries, taken as the parameters \<open>encode\<close> (\<open>None\<close> when \<open>Encode\<close>
  returns an error, otherwise the bytes written to \<open>out\<close>) and \<open>t2html\<close>. The result is
  the returned pair \<open>(string, error)\<close> as a sum, with the \<open>remaining\<close> set after the call.
\<close>

definition renderPatch ::
  "index \<Rightarrow> (FilePatch \<Rightarrow> string option) \<Rightarrow> (string \<Rightarrow> string) \<Rightarrow> string set \<Rightarrow> string
     \<Rightarrow> (error + string) \<times> string set" where
  "renderPatch patchByName encode t2html remaining path =
     (case patchByName path of
        None \<Rightarrow> (Inl (FindFilePatch path), remaining)
      | Some p \<Rightarrow>
          (case encode (FilePatch p) of
             None \<Rightarrow> (Inl EncodeFailed, remaining)
           | Some out \<Rightarrow> (Inr (t2html out), remaining - {path})))"

text \<open>
  \<open>remainingPatches\<close> (lines 111-117): append every key of \<open>remaining\<close> in the order the
  \<open>range\<close> yields them, then \<open>sort.Strings\<close>, which orders Go strings byte-wise
  lexicographically; that is the order of \<open>char list\<close> here.
\<close>

fun append_keys :: "string list \<Rightarrow> string list \<Rightarrow> string list" where
  "append_keys out [] = out"
| "append_keys out (k # ks) = append_keys (out @ [k]) ks"

definition remainingPatches :: "string list \<Rightarrow> string list" where
  "remainingPatches ks = sort (append_keys [] ks)"

text \<open>
  \<open>expandGlob\<close> (lines 121-130). \<open>filepath.Match\<close> is a library function, the parameter
  \<open>match\<close>: \<open>None\<close> is its only error, \<open>ErrBadPattern\<close>. The loop runs over
  \<open>targetTree.Entries\<close> with the index \<open>i\<close>, returns at the first error, and appends the
  name of every entry that matches.
\<close>

fun expandGlob_loop ::
  "(string \<Rightarrow> string \<Rightarrow> bool option) \<Rightarrow> string \<Rightarrow> nat \<Rightarrow> TreeEntry list \<Rightarrow> string list
     \<Rightarrow> error + string list" where
  "expandGlob_loop match globPattern i [] out = Inr out"
| "expandGlob_loop match globPattern i (entry # entries) out =
     (case match globPattern (Name entry) of
        None \<Rightarrow> Inl (GlobMatch i (Name entry) globPattern)
      | Some ok \<Rightarrow>
          expandGlob_loop match globPattern (Suc i) entries
            (if ok then out @ [Name entry] else out))"

definition expandGlob ::
  "(string \<Rightarrow> string \<Rightarrow> bool option) \<Rightarrow> TreeEntry list \<Rightarrow> string \<Rightarrow> error + string list" where
  "expandGlob match entries globPattern = expandGlob_loop match globPattern 0 entries []"

text \<open>
  The template functions share the variables of \<open>main\<close> they close over: the index, the
  entries of the target tree, and the libraries. \<open>renderMarkdown\<close> and
  \<open>nestForkDefinition\<close> read neither the index nor \<open>remaining\<close> and are left out.
\<close>

record captured =
  patchByName :: index
  targetEntries :: "TreeEntry list"
  Encode :: "FilePatch \<Rightarrow> string option"
  Render :: "string \<Rightarrow> string"
  Match :: "string \<Rightarrow> string \<Rightarrow> bool option"

text \<open>
  One call of a template function by the page template. \<open>RemainingPatches ks\<close> carries
  the order \<open>ks\<close> in which \<open>range remaining\<close> yields the keys during that call.
\<close>

datatype call = RenderPatch string | RemainingPatches "string list" | ExpandGlob string

datatype reply = Html string | Paths "string list"

definition call_func :: "captured \<Rightarrow> string set \<Rightarrow> call \<Rightarrow> (error + reply) \<times> string set" where
  "call_func C remaining c =
     (case c of
        RenderPatch path \<Rightarrow>
          (case renderPatch (patchByName C) (Encode C) (Render C) remaining path of
             (res, remaining') \<Rightarrow> (map_sum id Html res, remaining'))
      | RemainingPatches ks \<Rightarrow> (Inr (Paths (remainingPatches ks)), remaining)
      | ExpandGlob globPattern \<Rightarrow>
          (map_sum id Paths (expandGlob (Match C) (targetEntries C) globPattern), remaining))"

text \<open>
  Executing the template (line 136) is a sequence of such calls. \<open>text/template\<close> stops at
  the first call that returns a non-nil error and \<open>ExecuteTemplate\<close> returns that error,
  which \<open>must\<close> turns into exit status 1. \<open>exec\<close> returns the calls made with their
  results, and \<open>remaining\<close> at the end.
\<close>

type_synonym trace = "(call \<times> (error + reply)) list"

fun exec :: "captured \<Rightarrow> string set \<Rightarrow> call list \<Rightarrow> trace \<times> string set" where
  "exec C remaining [] = ([], remaining)"
| "exec C remaining (c # cs) =
     (case call_func C remaining c of
        (Inl e, remaining') \<Rightarrow> ([(c, Inl e)], remaining')
      | (Inr v, remaining') \<Rightarrow>
          (case exec C remaining' cs of (tr, r) \<Rightarrow> ((c, Inr v) # tr, r)))"

text \<open>The paths of the calls of \<open>renderPatch\<close> that returned a rendered diff and no error.\<close>

fun claimed :: "trace \<Rightarrow> string list" where
  "claimed [] = []"
| "claimed ((RenderPatch path, Inr v) # tr) = path # claimed tr"
| "claimed (x # tr) = claimed tr"

text \<open>
  The error \<open>ExecuteTemplate\<close> returns is that of the call at which it stopped (wrapped
  with the position in the template), or nil.
\<close>

fun trace_error :: "trace \<Rightarrow> error option" where
  "trace_error [] = None"
| "trace_error ((c, Inl e) # tr) = Some e"
| "trace_error ((c, Inr v) # tr) = trace_error tr"

text \<open>
  Lines 34-40: when the error is not nil, \<open>must\<close> writes the message and then the error
  to the standard error stream and calls \<open>os.Exit(1)\<close>; otherwise it does nothing. The
  result is the exit status, if the program exited, and the standard error stream.
\<close>

definition must :: "error option \<Rightarrow> piece list \<Rightarrow> piece list list \<Rightarrow> nat option \<times> piece list list" where
  "must err msg stderr =
     (case err of
        None \<Rightarrow> (None, stderr)
      | Some e \<Rightarrow> (Some 1, stderr @ [msg, [Lit (CHR 0x0A # ''error: ''), ArgV e]]))"

text \<open>
  Lines 133-136: the output file is opened, and created if it is not there, before the
  template is executed, and \<open>ExecuteTemplate\<close> writes into it while it runs. One step of
  an execution writes a piece of the page to the file or calls a template function;
  the execution stops at the first call that returns an error, and what has been
  written by then stays in the file. The result is the error, if any, \<open>remaining\<close>, and
  the texts written to the file \<open>f\<close>, in order.
\<close>

datatype step = Emit string | Call call


subsection \<open>A matcher for the examples\<close>

text \<open>
  The examples need one concrete matcher. \<open>sample_Match\<close> follows \<open>Match\<close> of Go's
  \<open>path/filepath\<close>, with its helpers \<open>scanChunk\<close>, \<open>matchChunk\<close> and \<open>getEsc\<close>, on strings
  of ASCII characters with the separator \<open>/\<close>: \<open>*\<close>, \<open>?\<close>, character classes and backslash
  escapes. The pattern is cut into chunks at the stars outside classes and matched
  chunk by chunk; a malformed chunk is reported when the matching reaches it, and a
  later chunk is not looked at once an earlier one has failed to match.

  \<open>scan\<close> is the index at which the \<open>Scan\<close> loop of \<open>scanChunk\<close> stops. \<open>parse_ranges\<close> is the
  loop over the ranges of a character class, \<open>star_loop\<close> the loop of \<open>Match\<close> that
  skips bytes of the name after a star.
\<close>

datatype chunk_match = ErrBadPattern | NoMatch | Matched string

fun scan :: "bool \<Rightarrow> string \<Rightarrow> nat" where
  "scan inrange [] = 0"
| "scan inrange (c # pattern) =
     (if c = CHR 0x5C then
        (case pattern of [] \<Rightarrow> 1 | d # pattern' \<Rightarrow> Suc (Suc (scan inrange pattern')))
      else if c = CHR ''*'' \<and> \<not> inrange then 0
      else Suc (scan (if c = CHR ''['' then True else if c = CHR '']'' then False else inrange)
                  pattern))"

definition scanChunk :: "string \<Rightarrow> bool \<times> string \<times> string" where
  "scanChunk pattern =
     (let star = (pattern \<noteq> [] \<and> hd pattern = CHR ''*'');
          pattern = dropWhile (\<lambda>c. c = CHR ''*'') pattern;
          i = scan False pattern
      in (star, take i pattern, drop i pattern))"

fun getEsc :: "string \<Rightarrow> (char \<times> string) option" where
  "getEsc [] = None"
| "getEsc (c # chunk) =
     (if c = CHR ''-'' \<or> c = CHR '']'' then None
      else if c = CHR 0x5C then
        (case chunk of [] \<Rightarrow> None | [d] \<Rightarrow> None | d # e # chunk' \<Rightarrow> Some (d, e # chunk'))
      else (case chunk of [] \<Rightarrow> None | d # chunk' \<Rightarrow> Some (c, d # chunk')))"

function parse_ranges :: "char \<Rightarrow> nat \<Rightarrow> bool \<Rightarrow> string \<Rightarrow> (bool \<times> string) option" where
  "parse_ranges r nrange match chunk =
     (if chunk \<noteq> [] \<and> hd chunk = CHR '']'' \<and> nrange > 0 then Some (match, tl chunk)
      else
        (case getEsc chunk of
           None \<Rightarrow> None
         | Some (lo, chunk1) \<Rightarrow>
             (if chunk1 \<noteq> [] \<and> hd chunk1 = CHR ''-'' then
                (case getEsc (tl chunk1) of
                   None \<Rightarrow> None
                 | Some (hi, chunk2) \<Rightarrow>
                     parse_ranges r (Suc nrange) (match \<or> (lo \<le> r \<and> r \<le> hi)) chunk2)
              else parse_ranges r (Suc nrange) (match \<or> (lo \<le> r \<and> r \<le> lo)) chunk1)))"
  by pat_completeness auto
termination
proof -
  have esc: "length nchunk < length chunk" if "getEsc chunk = Some (r, nchunk)"
    for chunk r nchunk
    using that by (cases chunk) (auto split: if_splits list.splits)
  show ?thesis
    by (relation "measure (\<lambda>(r, nrange, match, chunk). length chunk)") (auto dest!: esc)
qed

declare parse_ranges.simps [simp del]

function matchChunk :: "bool \<Rightarrow> string \<Rightarrow> string \<Rightarrow> chunk_match" where
  "matchChunk failed [] s = (if failed then NoMatch else Matched s)"
| "matchChunk failed (c # chunk) s =
     (case (if failed then None else case s of [] \<Rightarrow> None | a # s' \<Rightarrow> Some (a, s')) of
        None \<Rightarrow>
          (if c = CHR ''['' then
             (case parse_ranges (CHR 0x00) 0 False
                     (if chunk \<noteq> [] \<and> hd chunk = CHR ''^'' then tl chunk else chunk) of
                None \<Rightarrow> ErrBadPattern
              | Some (match, chunk') \<Rightarrow> matchChunk True chunk' s)
           else if c = CHR 0x5C then
             (case chunk of [] \<Rightarrow> ErrBadPattern | d # chunk' \<Rightarrow> matchChunk True chunk' s)
           else matchChunk True chunk s)
      | Some (a, s') \<Rightarrow>
          (if c = CHR ''['' then
             (case parse_ranges a 0 False
                     (if chunk \<noteq> [] \<and> hd chunk = CHR ''^'' then tl chunk else chunk) of
                None \<Rightarrow> ErrBadPattern
              | Some (match, chunk') \<Rightarrow>
                  matchChunk (match = (chunk \<noteq> [] \<and> hd chunk = CHR ''^'')) chunk' s')
           else if c = CHR ''?'' then matchChunk (a = CHR ''/'') chunk s'
           else if c = CHR 0x5C then
             (case chunk of [] \<Rightarrow> ErrBadPattern | d # chunk' \<Rightarrow> matchChunk (d \<noteq> a) chunk' s')
           else matchChunk (c \<noteq> a) chunk s'))"
  by pat_completeness auto
termination
proof -
  have esc: "length nchunk < length chunk" if "getEsc chunk = Some (r, nchunk)"
    for chunk r nchunk
    using that by (cases chunk) (auto split: if_splits list.splits)
  have ranges: "length rest < length chunk"
    if "parse_ranges r nrange match chunk = Some (m, rest)" for r nrange match chunk m rest
    using that
  proof (induction r nrange match chunk rule: parse_ranges.induct)
    case (1 r nrange match chunk)
    show ?case
    proof (cases "chunk \<noteq> [] \<and> hd chunk = CHR '']'' \<and> nrange > 0")
      case True
      with "1.prems" show ?thesis by (auto simp: parse_ranges.simps [of r nrange match chunk])
    next
      case False
      with "1.prems" obtain lo chunk1 where e1: "getEsc chunk = Some (lo, chunk1)"
        by (auto simp: parse_ranges.simps [of r nrange match chunk] split: option.splits)
      from e1 have l1: "length chunk1 < length chunk" by (rule esc)
      show ?thesis
      proof (cases "chunk1 \<noteq> [] \<and> hd chunk1 = CHR ''-''")
        case dash: True
        with "1.prems" False e1 obtain hi chunk2
          where e2: "getEsc (tl chunk1) = Some (hi, chunk2)"
            and rec: "parse_ranges r (Suc nrange) (match \<or> (lo \<le> r \<and> r \<le> hi)) chunk2
                        = Some (m, rest)"
          by (auto simp: parse_ranges.simps [of r nrange match chunk] split: option.splits)
        from e2 have "length chunk2 < length (tl chunk1)" by (rule esc)
        moreover from "1.IH"(1) [OF False e1 refl dash e2 refl rec]
        have "length rest < length chunk2" .
        ultimately show ?thesis using l1 by simp
      next
        case nodash: False
        with "1.prems" False e1
        have rec: "parse_ranges r (Suc nrange) (match \<or> (lo \<le> r \<and> r \<le> lo)) chunk1
                     = Some (m, rest)"
          by (auto simp: parse_ranges.simps [of r nrange match chunk] split: option.splits)
        from "1.IH"(2) [OF False e1 refl nodash rec] l1 show ?thesis by simp
      qed
    qed
  qed
  have cls: "length rest < Suc (length chunk)"
    if "parse_ranges r n m (if chunk \<noteq> [] \<and> hd chunk = CHR ''^'' then tl chunk else chunk)
          = Some (b, rest)" for r n m chunk b rest
    using that by (cases chunk) (auto dest!: ranges split: if_splits)
  show ?thesis
    by (relation "measure (\<lambda>(failed, chunk, s). length chunk)") (auto dest!: cls)
qed

declare matchChunk.simps [simp del]

datatype star_match = StarErr | NotFound | Found string

fun star_loop :: "string \<Rightarrow> bool \<Rightarrow> string \<Rightarrow> star_match" where
  "star_loop chunk lastChunk [] = NotFound"
| "star_loop chunk lastChunk (c # name) =
     (if c = CHR ''/'' then NotFound
      else
        (case matchChunk False chunk name of
           Matched t \<Rightarrow> if lastChunk \<and> t \<noteq> [] then star_loop chunk lastChunk name else Found t
         | ErrBadPattern \<Rightarrow> StarErr
         | NoMatch \<Rightarrow> star_loop chunk lastChunk name))"

function sample_Match :: "string \<Rightarrow> string \<Rightarrow> bool option" where
  "sample_Match pattern name =
     (if pattern = [] then Some (name = [])
      else
        (case scanChunk pattern of
           (star, chunk, rest) \<Rightarrow>
             if star \<and> chunk = [] then Some (CHR ''/'' \<notin> set name)
             else
               (case matchChunk False chunk name of
                  ErrBadPattern \<Rightarrow> None
                | Matched t \<Rightarrow>
                    if t = [] \<or> rest \<noteq> [] then sample_Match rest t
                    else if star then
                      (case star_loop chunk (rest = []) name of
                         StarErr \<Rightarrow> None
                       | NotFound \<Rightarrow> Some False
                       | Found t' \<Rightarrow> sample_Match rest t')
                    else Some False
                | NoMatch \<Rightarrow>
                    if star then
                      (case star_loop chunk (rest = []) name of
                         StarErr \<Rightarrow> None
                       | NotFound \<Rightarrow> Some False
                       | Found t' \<Rightarrow> sample_Match rest t')
                    else Some False)))"
  by pat_completeness auto
termination
proof -
  have shorter: "length rest < length pattern"
    if "scanChunk pattern = (star, chunk, rest)" and "pattern \<noteq> []"
    for pattern star chunk rest
  proof (cases "dropWhile (\<lambda>c. c = CHR ''*'') pattern")
    case Nil
    with that show ?thesis by (auto simp: scanChunk_def)
  next
    case (Cons c p)
    then have "c \<noteq> CHR ''*''"
      by (metis (mono_tags, lifting) hd_dropWhile list.sel(1) list.simps(3))
    then have "0 < scan False (c # p)" by (cases p) simp_all
    then have "length (drop (scan False (c # p)) (c # p)) < length (c # p)" by simp
    moreover have "length (c # p) \<le> length pattern"
      unfolding Cons [symmetric] by (rule length_dropWhile_le)
    moreover from that Cons have "rest = drop (scan False (c # p)) (c # p)"
      by (simp add: scanChunk_def Let_def)
    ultimately show ?thesis by simp
  qed
  show ?thesis
    by (relation "measure (\<lambda>(pattern, name). length pattern)") (auto dest: shorter [OF sym])
qed

declare sample_Match.simps [simp del]

subsection \<open>The scenario of the specification's examples\<close>

text \<open>
  Section 8 of the specification: the target tree lists \<open>a.go\<close>, \<open>b.go\<close> and \<open>c.md\<close>,
  and the diff changes \<open>a.go\<close> and adds \<open>c.md\<close>. As line 63 has it, the \<open>from\<close> file of a
  file patch is the file of the target and its \<open>to\<close> file the file of the base. Three
  more file patches serve the examples of the index loop: the deletion of \<open>old.txt\<close>
  by the fork; \<open>patch_z\<close>, whose base file is \<open>a.go\<close> and whose target file is \<open>z.go\<close>, so
  that its key collides with that of the change of \<open>a.go\<close>; and the rename of \<open>z.go\<close> to
  \<open>y.go\<close> by the fork. The encoder of the examples writes the chunks one after the
  other and never fails.
\<close>

definition file_at :: "string \<Rightarrow> File" where
  "file_at path = \<lparr>Hash = ''0000'', Mode = 0x81A4, Path = path\<rparr>"

definition patch_a :: diff_FilePatch where
  "patch_a = \<lparr>IsBinary = False, fromFile = Some (file_at ''a.go''),
     toFile = Some (file_at ''a.go''),
     Chunks = [\<lparr>Content = ''x'', Type = Delete\<rparr>, \<lparr>Content = ''y'', Type = Add\<rparr>]\<rparr>"

definition patch_c :: diff_FilePatch where
  "patch_c = \<lparr>IsBinary = False, fromFile = Some (file_at ''c.md''), toFile = None,
     Chunks = [\<lparr>Content = ''doc'', Type = Add\<rparr>]\<rparr>"



definition patch_rename :: diff_FilePatch where
  "patch_rename = \<lparr>IsBinary = False, fromFile = Some (file_at ''y.go''),
     toFile = Some (file_at ''z.go''), Chunks = []\<rparr>"

definition entry_named :: "string \<Rightarrow> TreeEntry" where
  "entry_named name = \<lparr>Name = name, EntryMode = 0x81A4, EntryHash = ''0000''\<rparr>"

definition sample_Encode :: "FilePatch \<Rightarrow> string option" where
  "sample_Encode p = Some (concat (map Content (concat (map Chunks (FilePatches p)))))"

definition scenario :: captured where
  "scenario = \<lparr>patchByName = [''a.go'' \<mapsto> patch_a, ''c.md'' \<mapsto> patch_c],
     targetEntries = [entry_named ''a.go'', entry_named ''b.go'', entry_named ''c.md''],
     Encode = sample_Encode, Render = (\<lambda>out. out), Match = sample_Match\<rparr>"

subsection \<open>File changes, in the words of the specification\<close>

text \<open>
  Section 3 of the specification: a file change has an old path, in the older snapshot,
  and a new path, in the newer one, and its canonical path is the new path if present,
  else the old path. The older snapshot is the base and the newer one the target (the
  fork). Line 63 is \<open>targetTree.PatchContext(ctx, baseTree)\<close>, and go-git's
  \<open>t.PatchContext(ctx, to)\<close> describes the changes that lead from the receiver \<open>t\<close> to the
  argument \<open>to\<close>: the \<open>from\<close> file of a file patch is the file in the receiver and its \<open>to\<close>
  file the file in the argument. So \<open>from\<close> is the file of the target, the new path of
  the specification, and \<open>to\<close> the file of the base, its old path.
\<close>

record FileChange =
  oldPath :: "string option"
  newPath :: "string option"
  hunks :: "Chunk list"

definition file_change :: "diff_FilePatch \<Rightarrow> FileChange" where
  "file_change fp =
     \<lparr>oldPath = map_option Path (toFile fp), newPath = map_option Path (fromFile fp),
      hunks = Chunks fp\<rparr>"

definition spec_canonical_path :: "FileChange \<Rightarrow> string option" where
  "spec_canonical_path ch = (case newPath ch of Some p \<Rightarrow> Some p | None \<Rightarrow> oldPath ch)"

section \<open>Facts about the index loop, the remaining set and the sorted remainder\<close>


lemma index_patches_Cons_Inr:
  "index_patches (m, err) (fp # fps) = Inr s \<Longrightarrow>
     \<exists>k. index_key fp = Some k \<and> index_patches (m(k \<mapsto> fp), err) fps = Inr s"
  by (simp add: index_key_def split: option.splits)


lemma index_patches_stderr:
  "index_patches (m, err) fps = Inr (idx, err') \<Longrightarrow> err' = err"
proof (induction fps arbitrary: m)
  case Nil
  then show ?case by simp
next
  case (Cons fp fps)
  from index_patches_Cons_Inr [OF Cons.prems] Cons.IH show ?case by blast
qed

lemma index_patches_lookup:
  "index_patches (m, err) fps = Inr (idx, err') \<Longrightarrow> idx k = Some fp \<Longrightarrow>
     (fp \<in> set fps \<and> index_key fp = Some k) \<or> m k = Some fp"
proof (induction fps arbitrary: m)
  case Nil
  then show ?case by simp
next
  case (Cons a fps)
  from index_patches_Cons_Inr [OF Cons.prems(1)] obtain ka
    where ka: "index_key a = Some ka"
    and rest: "index_patches (m(ka \<mapsto> a), err) fps = Inr (idx, err')"
    by blast
  from Cons.IH [OF rest Cons.prems(2)] ka show ?case
    by (auto split: if_splits)
qed

lemma index_patches_dom:
  "index_patches (m, err) fps = Inr (idx, err') \<Longrightarrow>
     dom idx = dom m \<union> {k. \<exists>fp\<in>set fps. index_key fp = Some k}"
proof (induction fps arbitrary: m)
  case Nil
  then show ?case by simp
next
  case (Cons a fps)
  from index_patches_Cons_Inr [OF Cons.prems(1)] obtain ka
    where ka: "index_key a = Some ka"
    and rest: "index_patches (m(ka \<mapsto> a), err) fps = Inr (idx, err')"
    by blast
  have "dom idx = dom (m(ka \<mapsto> a)) \<union> {k. \<exists>fp\<in>set fps. index_key fp = Some k}"
    by (rule Cons.IH [OF rest])
  also have "\<dots> = dom m \<union> {k. \<exists>fp\<in>set (a # fps). index_key fp = Some k}"
    using ka by auto
  finally show ?case .
qed




lemma index_key_prefers_base_path:
  "index_key fp = (case oldPath (file_change fp) of Some p \<Rightarrow> Some p
                   | None \<Rightarrow> newPath (file_change fp))"
  by (simp add: index_key_def file_change_def split: option.splits)


text \<open>
  The order of strings is the lexicographic order of their bytes, as Go compares
  strings: a proper prefix comes first, and the first differing byte decides.
\<close>

lemma string_order_bytewise:
  "([] :: string) \<le> t"
  "\<not> (c # s \<le> ([] :: string))"
  "(c # s \<le> d # t) \<longleftrightarrow> (of_char c :: nat) < of_char d \<or> (c = d \<and> s \<le> t)"
  by (auto simp: less_char_def)

lemma init_remaining_eq: "init_remaining r ks = r \<union> set ks"
  by (induction ks arbitrary: r) auto

lemma append_keys_eq: "append_keys out ks = out @ ks"
  by (induction ks arbitrary: out) auto

lemma remainingPatches_eq: "range_order r ks \<Longrightarrow> remainingPatches ks = sorted_list_of_set r"
  by (auto simp: range_order_def remainingPatches_def append_keys_eq
      sorted_list_of_set_sort_remdups distinct_remdups_id)

section \<open>Facts about the template functions\<close>

lemma renderPatch_cases:
  "renderPatch idx enc h r p =
     (if idx p = None then (Inl (FindFilePatch p), r)
      else if enc (FilePatch (the (idx p))) = None then (Inl EncodeFailed, r)
      else (Inr (h (the (enc (FilePatch (the (idx p)))))), r - {p}))"
  by (auto simp: renderPatch_def split: option.splits)

lemma renderPatch_ok:
  "fst (renderPatch idx enc h r p) = Inr v \<Longrightarrow>
     snd (renderPatch idx enc h r p) = r - {p} \<and> p \<in> dom idx"
  by (auto simp: renderPatch_def split: option.splits)

lemma call_func_RenderPatch_ok:
  "call_func C r (RenderPatch p) = (Inr v, r') \<Longrightarrow> r' = r - {p} \<and> p \<in> dom (patchByName C)"
  by (auto simp: call_func_def renderPatch_def split: option.splits)

lemma call_func_error_keeps: "call_func C r c = (Inl e, r') \<Longrightarrow> r' = r"
  by (cases c) (auto simp: call_func_def renderPatch_def split: option.splits)

lemma call_func_other_keeps:
  "call_func C r (RemainingPatches ks) = (res, r') \<Longrightarrow> r' = r"
  "call_func C r (ExpandGlob g) = (res, r') \<Longrightarrow> r' = r"
  by (auto simp: call_func_def)

lemma call_func_subset: "snd (call_func C r c) \<subseteq> r"
  by (cases c) (auto simp: call_func_def renderPatch_def split: option.splits)

lemma exec_remaining:
  "exec C r cs = (tr, r') \<Longrightarrow> r' = r - set (claimed tr) \<and> set (claimed tr) \<subseteq> dom (patchByName C)"
proof (induction cs arbitrary: r tr r')
  case Nil
  then show ?case by simp
next
  case (Cons c cs)
  obtain res r1 where step: "call_func C r c = (res, r1)" by (cases "call_func C r c")
  show ?case
  proof (cases res)
    case (Inl e)
    with step Cons.prems have tr: "tr = [(c, Inl e)]" and r': "r' = r1" by auto
    from step Inl have "r1 = r" by (auto dest: call_func_error_keeps)
    with tr r' show ?thesis by (cases c) simp_all
  next
    case (Inr v)
    obtain tr2 r2 where rest: "exec C r1 cs = (tr2, r2)" by (cases "exec C r1 cs")
    with step Inr Cons.prems have tr: "tr = (c, Inr v) # tr2" and r': "r' = r2" by auto
    from Cons.IH [OF rest] have ih: "r2 = r1 - set (claimed tr2)"
      "set (claimed tr2) \<subseteq> dom (patchByName C)" by auto
    show ?thesis
    proof (cases c)
      case (RenderPatch p)
      with step Inr call_func_RenderPatch_ok have "r1 = r - {p}" "p \<in> dom (patchByName C)"
        by blast+
      with ih tr r' RenderPatch show ?thesis by auto
    next
      case (RemainingPatches ks)
      with step call_func_other_keeps(1) have "r1 = r" by blast
      with ih tr r' RemainingPatches show ?thesis by auto
    next
      case (ExpandGlob g)
      with step call_func_other_keeps(2) have "r1 = r" by blast
      with ih tr r' ExpandGlob show ?thesis by auto
    qed
  qed
qed

lemma exec_subset: "exec C r cs = (tr, r') \<Longrightarrow> r' \<subseteq> r"
  by (auto dest: exec_remaining)

lemma expandGlob_loop_ok:
  "\<forall>e\<in>set es. m g (Name e) \<noteq> None \<Longrightarrow>
     expandGlob_loop m g i es out = Inr (out @ filter (\<lambda>n. m g n = Some True) (map Name es))"
  by (induction es arbitrary: i out) auto

lemma expandGlob_loop_names:
  "map Name es = map Name es' \<Longrightarrow> expandGlob_loop m g i es out = expandGlob_loop m g i es' out"
proof (induction es arbitrary: es' i out)
  case Nil
  then show ?case by simp
next
  case (Cons e es)
  then obtain e' es2 where "es' = e' # es2" "Name e' = Name e" "map Name es = map Name es2"
    by (cases es') auto
  with Cons.IH show ?case by (auto split: option.splits)
qed

lemma expandGlob_loop_bad:
  "es \<noteq> [] \<Longrightarrow> m g (Name (hd es)) = None \<Longrightarrow>
     expandGlob_loop m g i es out = Inl (GlobMatch i (Name (hd es)) g)"
  by (cases es) auto





lemma exec_error_stops:
  "call_func C r c = (Inl e, r') \<Longrightarrow> exec C r (c # cs) = ([(c, Inl e)], r)"
  by (frule call_func_error_keeps) simp

lemma claimed_iff: "p \<in> set (claimed tr) \<longleftrightarrow> (\<exists>v. (RenderPatch p, Inr v) \<in> set tr)"
  by (induction tr rule: claimed.induct) auto

lemma init_remaining_range:
  "range_order S ks \<Longrightarrow> init_remaining {} ks = S"
  by (simp add: init_remaining_eq range_order_def)

lemma range_order_finite: "range_order S ks \<Longrightarrow> finite S"
  by (auto simp: range_order_def)

subsection \<open>Evaluating the scenario\<close>

lemma scenario_simps:
  "patchByName scenario = [''a.go'' \<mapsto> patch_a, ''c.md'' \<mapsto> patch_c]"
  "targetEntries scenario = [entry_named ''a.go'', entry_named ''b.go'', entry_named ''c.md'']"
  "Encode scenario = sample_Encode"
  "Render scenario = (\<lambda>out. out)"
  "Match scenario = sample_Match"
  by (simp_all add: scenario_def)

lemma sample_Encode_simps:
  "sample_Encode (FilePatch patch_a) = Some ''xy''"
  "sample_Encode (FilePatch patch_c) = Some ''doc''"
  by (simp_all add: sample_Encode_def FilePatches_def patch_a_def patch_c_def)

lemma sample_Match_scenario:
  "sample_Match ''*.go'' ''a.go'' = Some True"
  "sample_Match ''*.go'' ''b.go'' = Some True"
  "sample_Match ''*.go'' ''c.md'' = Some False"
  "sample_Match ''*.txt'' ''a.go'' = Some False"
  "sample_Match ''*.txt'' ''b.go'' = Some False"
  "sample_Match ''*.txt'' ''c.md'' = Some False"
  "sample_Match ''['' ''a.go'' = None"
  "sample_Match ''b*['' ''a.go'' = Some False"
  "sample_Match ''b*['' ''b.go'' = None"
  "sample_Match ''x*['' ''a.go'' = Some False"
  "sample_Match ''x*['' ''b.go'' = Some False"
  "sample_Match ''x*['' ''c.md'' = Some False"
  "sample_Match ''x*['' ''x'' = None"
  by code_simp+

lemma scenario_run:
  "exec scenario {''a.go'', ''c.md''}
     [ExpandGlob ''*.go'', RenderPatch ''a.go'', ExpandGlob ''*.txt'', RemainingPatches [''c.md'']]
   = ([(ExpandGlob ''*.go'', Inr (Paths [''a.go'', ''b.go''])),
       (RenderPatch ''a.go'', Inr (Html ''xy'')),
       (ExpandGlob ''*.txt'', Inr (Paths [])),
       (RemainingPatches [''c.md''], Inr (Paths [''c.md'']))], {''c.md''})"
  by (simp add: call_func_def renderPatch_def expandGlob_def scenario_simps sample_Encode_simps
      sample_Match_scenario entry_named_def insert_Diff_if remainingPatches_def)

section \<open>The claims\<close>

subsection \<open>C1: coverage conservation\<close>

text \<open>
  C1. Start from \<open>remaining\<close> as lines 75-78 build it from the keys of the patch index,
  and let the template make any sequence of calls. Afterwards every key of the index
  is in \<open>remaining\<close> or is the path of a call of \<open>renderPatch\<close> that returned a rendered
  diff, and never both; \<open>remainingPatches\<close> lists exactly \<open>remaining\<close>, without
  duplicates, and lists keys of the index only.
\<close>

theorem coverage_conservation:
  assumes keys: "range_order (dom (patchByName C)) ks"
    and run: "exec C (init_remaining {} ks) cs = (tr, r)"
    and rest: "range_order r ks'"
  shows "dom (patchByName C) = r \<union> {p. \<exists>v. (RenderPatch p, Inr v) \<in> set tr}
       \<and> r \<inter> {p. \<exists>v. (RenderPatch p, Inr v) \<in> set tr} = {}
       \<and> set (remainingPatches ks') = r
       \<and> distinct (remainingPatches ks')
       \<and> set (remainingPatches ks') \<subseteq> dom (patchByName C)"
proof -
  have cl: "{p. \<exists>v. (RenderPatch p, Inr v) \<in> set tr} = set (claimed tr)"
    by (auto simp: claimed_iff)
  from keys have init: "init_remaining {} ks = dom (patchByName C)"
    by (rule init_remaining_range)
  from exec_remaining [OF run] init
  have r: "r = dom (patchByName C) - set (claimed tr)"
    and sub: "set (claimed tr) \<subseteq> dom (patchByName C)" by simp_all
  from rest have fin: "finite r" by (rule range_order_finite)
  from rest have out: "remainingPatches ks' = sorted_list_of_set r"
    by (rule remainingPatches_eq)
  have 1: "dom (patchByName C) = r \<union> set (claimed tr)" using r sub by auto
  have 2: "r \<inter> set (claimed tr) = {}" using r by auto
  have 3: "set (remainingPatches ks') = r" using out fin by simp
  have 4: "distinct (remainingPatches ks')" using out by simp
  have 5: "set (remainingPatches ks') \<subseteq> dom (patchByName C)" using 3 r by auto
  from 1 2 3 4 5 show ?thesis unfolding cl by blast
qed

theorem coverage_conservation_witness:
  "range_order (dom (patchByName scenario)) [''c.md'', ''a.go'']
   \<and> exec scenario (init_remaining {} [''c.md'', ''a.go''])
       [ExpandGlob ''*.go'', RenderPatch ''a.go'', ExpandGlob ''*.txt'', RemainingPatches [''c.md'']]
     = ([(ExpandGlob ''*.go'', Inr (Paths [''a.go'', ''b.go''])),
         (RenderPatch ''a.go'', Inr (Html ''xy'')),
         (ExpandGlob ''*.txt'', Inr (Paths [])),
         (RemainingPatches [''c.md''], Inr (Paths [''c.md'']))], {''c.md''})
   \<and> range_order {''c.md''} [''c.md'']
   \<and> dom (patchByName scenario) = {''c.md''} \<union> {''a.go''}
   \<and> remainingPatches [''c.md''] = [''c.md'']"
proof -
  have keys: "range_order (dom (patchByName scenario)) [''c.md'', ''a.go'']"
    by (auto simp: range_order_def scenario_simps)
  have init: "init_remaining {} [''c.md'', ''a.go''] = {''a.go'', ''c.md''}"
    by auto
  have run: "exec scenario (init_remaining {} [''c.md'', ''a.go''])
       [ExpandGlob ''*.go'', RenderPatch ''a.go'', ExpandGlob ''*.txt'', RemainingPatches [''c.md'']]
     = ([(ExpandGlob ''*.go'', Inr (Paths [''a.go'', ''b.go''])),
         (RenderPatch ''a.go'', Inr (Html ''xy'')),
         (ExpandGlob ''*.txt'', Inr (Paths [])),
         (RemainingPatches [''c.md''], Inr (Paths [''c.md'']))], {''c.md''})"
    unfolding init by (rule scenario_run)
  have rest: "range_order {''c.md''} [''c.md'']" by (simp add: range_order_def)
  have out: "remainingPatches [''c.md''] = [''c.md'']" by (simp add: remainingPatches_def)
  from coverage_conservation [OF keys run rest]
  have "dom (patchByName scenario) = {''c.md''} \<union> {''a.go''}" by auto
  with keys run rest out show ?thesis by blast
qed

subsection \<open>C2: the key of a file patch\<close>

text \<open>
  C2 says that a file change is keyed by its new path when a post-change file exists.
  The fork renames \<open>z.go\<close> to \<open>y.go\<close>: the file change has the old path \<open>z.go\<close> and the new
  path \<open>y.go\<close>, its canonical path is \<open>y.go\<close>, and the loop of lines 67-74 stores it under
  \<open>z.go\<close>. The loop prefers the \<open>to\<close> file, which line 63 makes the file of the base;
  lines 100-101 name the base the source and the target the destination of the
  rendered diff, the other direction.
\<close>

theorem rename_is_keyed_by_old_path:
  "file_change patch_rename = \<lparr>oldPath = Some ''z.go'', newPath = Some ''y.go'', hunks = []\<rparr>
   \<and> spec_canonical_path (file_change patch_rename) = Some ''y.go''
   \<and> index_patches (Map.empty, []) [patch_rename] = Inr ([''z.go'' \<mapsto> patch_rename], [])"
  by (simp add: file_change_def spec_canonical_path_def patch_rename_def file_at_def)

subsection \<open>C3: a path without a patch\<close>

text \<open>
  C3 says that a path matched by a glob and absent from the index is skipped without
  an error and that the run goes on. In the first scenario of the specification the
  glob \<open>*.go\<close> yields \<open>a.go\<close> and \<open>b.go\<close>; rendering \<open>b.go\<close>, which has no diff, returns the
  error of line 96, the template stops there, and \<open>c.md\<close> is never rendered and stays in
  \<open>remaining\<close>.
\<close>

theorem lookup_miss_counterexample:
  "exec scenario {''a.go'', ''c.md''}
     [ExpandGlob ''*.go'', RenderPatch ''a.go'', RenderPatch ''b.go'',
      ExpandGlob ''*.md'', RenderPatch ''c.md'']
   = ([(ExpandGlob ''*.go'', Inr (Paths [''a.go'', ''b.go''])),
       (RenderPatch ''a.go'', Inr (Html ''xy'')),
       (RenderPatch ''b.go'', Inl (FindFilePatch ''b.go''))], {''c.md''})"
  by (simp add: call_func_def renderPatch_def expandGlob_def scenario_simps sample_Encode_simps
      sample_Match_scenario entry_named_def insert_Diff_if)

text \<open>
  C3, as the code has it. For a path with no entry in the patch index, \<open>renderPatch\<close>
  returns the error \<open>failed to find file patch\<close> followed by the path, \<open>remaining\<close> is
  unchanged, the execution of the template stops at that call whatever calls would
  follow, and \<open>must\<close> writes its message and the error and exits with status 1.
\<close>

theorem lookup_miss_is_error:
  assumes "patchByName C path = None"
  shows "renderPatch (patchByName C) (Encode C) (Render C) r path = (Inl (FindFilePatch path), r)
       \<and> error_message (FindFilePatch path) = [Lit ''failed to find file patch '', ArgS path]
       \<and> exec C r (RenderPatch path # cs) = ([(RenderPatch path, Inl (FindFilePatch path))], r)
       \<and> must (trace_error (fst (exec C r (RenderPatch path # cs)))) msg stderr
           = (Some 1, stderr @ [msg, [Lit (CHR 0x0A # ''error: ''), ArgV (FindFilePatch path)]])"
proof -
  have a: "renderPatch (patchByName C) (Encode C) (Render C) r path = (Inl (FindFilePatch path), r)"
    using assms by (simp add: renderPatch_def)
  then have "call_func C r (RenderPatch path) = (Inl (FindFilePatch path), r)"
    by (simp add: call_func_def)
  then have b: "exec C r (RenderPatch path # cs) = ([(RenderPatch path, Inl (FindFilePatch path))], r)"
    by (rule exec_error_stops)
  from a b show ?thesis by (simp add: must_def)
qed

theorem lookup_miss_is_error_witness:
  "patchByName scenario ''b.go'' = None
   \<and> renderPatch (patchByName scenario) (Encode scenario) (Render scenario) {''c.md''} ''b.go''
       = (Inl (FindFilePatch ''b.go''), {''c.md''})
   \<and> exec scenario {''c.md''} [RenderPatch ''b.go'', RenderPatch ''c.md'']
       = ([(RenderPatch ''b.go'', Inl (FindFilePatch ''b.go''))], {''c.md''})
   \<and> must (trace_error (fst (exec scenario {''c.md''} [RenderPatch ''b.go'', RenderPatch ''c.md''])))
         [Lit ''failed to build page''] []
       = (Some 1, [[Lit ''failed to build page''],
                   [Lit (CHR 0x0A # ''error: ''), ArgV (FindFilePatch ''b.go'')]])"
proof -
  have h: "patchByName scenario ''b.go'' = None" by (simp add: scenario_simps)
  note miss = lookup_miss_is_error [OF h, of "{''c.md''}" "[RenderPatch ''c.md'']"
      "[Lit ''failed to build page'']" "[]"]
  from miss
  have a: "renderPatch (patchByName scenario) (Encode scenario) (Render scenario) {''c.md''} ''b.go''
       = (Inl (FindFilePatch ''b.go''), {''c.md''})" by (elim conjE)
  from miss
  have b: "exec scenario {''c.md''} [RenderPatch ''b.go'', RenderPatch ''c.md'']
       = ([(RenderPatch ''b.go'', Inl (FindFilePatch ''b.go''))], {''c.md''})" by (elim conjE)
  from miss
  have c: "must (trace_error (fst (exec scenario {''c.md''} [RenderPatch ''b.go'', RenderPatch ''c.md''])))
         [Lit ''failed to build page''] []
       = (Some 1, [] @ [[Lit ''failed to build page''],
                   [Lit (CHR 0x0A # ''error: ''), ArgV (FindFilePatch ''b.go'')]])" by (elim conjE)
  show ?thesis by (intro conjI) (fact h a b c [unfolded append_Nil])+
qed

subsection \<open>C4: two file patches with one canonical path\<close>




subsection \<open>C5: the sorted remainder\<close>

text \<open>
  C5. Whatever order the \<open>range\<close> over \<open>remaining\<close> yields the keys in,
  \<open>remainingPatches\<close> returns the remaining set as the list sorted in the lexicographic
  order of strings. Two runs on the same index and the same calls, whose \<open>range\<close> loops
  yield the keys in different orders, end with the same \<open>remaining\<close> and return the
  same list.
\<close>

theorem remainingPatches_sorted:
  assumes k1: "range_order (dom (patchByName C)) ks1"
    and k2: "range_order (dom (patchByName C)) ks2"
    and run1: "exec C (init_remaining {} ks1) cs = (tr1, r1)"
    and run2: "exec C (init_remaining {} ks2) cs = (tr2, r2)"
    and o1: "range_order r1 out1"
    and o2: "range_order r2 out2"
  shows "sorted (remainingPatches out1) \<and> set (remainingPatches out1) = r1
       \<and> remainingPatches out1 = sorted_list_of_set r1
       \<and> call_func C r1 (RemainingPatches out1) = (Inr (Paths (sorted_list_of_set r1)), r1)
       \<and> r2 = r1 \<and> tr2 = tr1 \<and> remainingPatches out2 = remainingPatches out1"
proof -
  from k1 k2 have "init_remaining {} ks1 = init_remaining {} ks2"
    by (simp add: init_remaining_range)
  with run1 run2 have same: "r2 = r1" "tr2 = tr1" by simp_all
  from o1 have e1: "remainingPatches out1 = sorted_list_of_set r1" by (rule remainingPatches_eq)
  from o2 same have e2: "remainingPatches out2 = sorted_list_of_set r1"
    by (simp add: remainingPatches_eq)
  from o1 have fin: "finite r1" by (rule range_order_finite)
  have a: "sorted (remainingPatches out1)" unfolding e1 by simp
  have b: "set (remainingPatches out1) = r1" unfolding e1 using fin by simp
  have c: "call_func C r1 (RemainingPatches out1) = (Inr (Paths (sorted_list_of_set r1)), r1)"
    by (simp add: call_func_def e1)
  from a b c e1 e2 same show ?thesis by simp
qed

theorem remainingPatches_sorted_witness:
  "range_order (dom (patchByName scenario)) [''a.go'', ''c.md'']
   \<and> range_order (dom (patchByName scenario)) [''c.md'', ''a.go'']
   \<and> exec scenario (init_remaining {} [''a.go'', ''c.md'']) [ExpandGlob ''*.txt'']
       = ([(ExpandGlob ''*.txt'', Inr (Paths []))], {''a.go'', ''c.md''})
   \<and> exec scenario (init_remaining {} [''c.md'', ''a.go'']) [ExpandGlob ''*.txt'']
       = ([(ExpandGlob ''*.txt'', Inr (Paths []))], {''a.go'', ''c.md''})
   \<and> range_order {''a.go'', ''c.md''} [''c.md'', ''a.go'']
   \<and> range_order {''a.go'', ''c.md''} [''a.go'', ''c.md'']
   \<and> remainingPatches [''c.md'', ''a.go''] = [''a.go'', ''c.md'']
   \<and> remainingPatches [''a.go'', ''c.md''] = remainingPatches [''c.md'', ''a.go'']"
proof -
  have k1: "range_order (dom (patchByName scenario)) [''a.go'', ''c.md'']"
    and k2: "range_order (dom (patchByName scenario)) [''c.md'', ''a.go'']"
    by (auto simp: range_order_def scenario_simps)
  have run1: "exec scenario (init_remaining {} [''a.go'', ''c.md'']) [ExpandGlob ''*.txt'']
       = ([(ExpandGlob ''*.txt'', Inr (Paths []))], {''a.go'', ''c.md''})"
    by (simp add: call_func_def expandGlob_def scenario_simps sample_Match_scenario entry_named_def
        insert_commute)
  have run2: "exec scenario (init_remaining {} [''c.md'', ''a.go'']) [ExpandGlob ''*.txt'']
       = ([(ExpandGlob ''*.txt'', Inr (Paths []))], {''a.go'', ''c.md''})"
    by (simp add: call_func_def expandGlob_def scenario_simps sample_Match_scenario entry_named_def
        insert_commute)
  have o1: "range_order {''a.go'', ''c.md''} [''c.md'', ''a.go'']"
    and o2: "range_order {''a.go'', ''c.md''} [''a.go'', ''c.md'']"
    by (auto simp: range_order_def)
  have v: "remainingPatches [''c.md'', ''a.go''] = [''a.go'', ''c.md'']"
    by (simp add: remainingPatches_def)
  note srt = remainingPatches_sorted [OF k1 k2 run1 run2 o1 o2]
  from srt
  have same: "remainingPatches [''a.go'', ''c.md''] = remainingPatches [''c.md'', ''a.go'']"
    by (elim conjE)
  show ?thesis by (intro conjI) (fact k1 k2 run1 run2 o1 o2 v same)+
qed

subsection \<open>C6: the remaining set only shrinks\<close>

text \<open>
  C6. \<open>remaining\<close> starts as the key set of the patch index. Every call of a template
  function leaves it a subset of what it was, so its size never grows, over one call
  and over any run of calls. A path that a call of \<open>renderPatch\<close> has claimed is not in
  \<open>remaining\<close> after that call nor after any later call.
\<close>

theorem remaining_only_shrinks:
  assumes keys: "range_order (dom (patchByName C)) ks"
    and run: "exec C (init_remaining {} ks) cs = (tr, r)"
    and step: "call_func C r c = (res, r1)"
    and later: "exec C r1 cs' = (tr', r2)"
  shows "init_remaining {} ks = dom (patchByName C)
       \<and> r \<subseteq> dom (patchByName C) \<and> r1 \<subseteq> r \<and> r2 \<subseteq> r1
       \<and> card r \<le> card (dom (patchByName C)) \<and> card r1 \<le> card r \<and> card r2 \<le> card r1
       \<and> set (claimed tr) \<inter> r = {} \<and> set (claimed tr) \<inter> r1 = {}
       \<and> set (claimed tr) \<inter> r2 = {}
       \<and> set (claimed [(c, res)]) \<inter> r1 = {} \<and> set (claimed [(c, res)]) \<inter> r2 = {}"
proof -
  from keys have init: "init_remaining {} ks = dom (patchByName C)"
    by (rule init_remaining_range)
  from keys have fin: "finite (dom (patchByName C))" by (rule range_order_finite)
  from exec_remaining [OF run] init have r: "r = dom (patchByName C) - set (claimed tr)"
    by simp
  then have s0: "r \<subseteq> dom (patchByName C)" by auto
  from call_func_subset [of C r c] step have s1: "r1 \<subseteq> r" by simp
  from later have s2: "r2 \<subseteq> r1" by (rule exec_subset)
  from s0 fin have f0: "finite r" by (rule finite_subset)
  from s1 f0 have f1: "finite r1" by (rule finite_subset)
  have c0: "card r \<le> card (dom (patchByName C))" using s0 fin by (rule card_mono[rotated])
  have c1: "card r1 \<le> card r" using s1 f0 by (rule card_mono[rotated])
  have c2: "card r2 \<le> card r1" using s2 f1 by (rule card_mono[rotated])
  from r have d0: "set (claimed tr) \<inter> r = {}" by auto
  with s1 have d1: "set (claimed tr) \<inter> r1 = {}" by auto
  with s2 have d2: "set (claimed tr) \<inter> r2 = {}" by auto
  have e1: "set (claimed [(c, res)]) \<inter> r1 = {}"
  proof (cases c)
    case (RenderPatch p)
    show ?thesis
    proof (cases res)
      case (Inl e)
      with RenderPatch show ?thesis by simp
    next
      case (Inr v)
      with step RenderPatch call_func_RenderPatch_ok have "r1 = r - {p}" by blast
      with RenderPatch Inr show ?thesis by simp
    qed
  qed simp_all
  with s2 have e2: "set (claimed [(c, res)]) \<inter> r2 = {}" by auto
  from init s0 s1 s2 c0 c1 c2 d0 d1 d2 e1 e2 show ?thesis by blast
qed

theorem remaining_only_shrinks_witness:
  "range_order (dom (patchByName scenario)) [''a.go'', ''c.md'']
   \<and> exec scenario (init_remaining {} [''a.go'', ''c.md'']) [RenderPatch ''a.go'']
       = ([(RenderPatch ''a.go'', Inr (Html ''xy''))], {''c.md''})
   \<and> call_func scenario {''c.md''} (RenderPatch ''c.md'') = (Inr (Html ''doc''), {})
   \<and> exec scenario {} [RenderPatch ''a.go'', RenderPatch ''c.md'']
       = ([(RenderPatch ''a.go'', Inr (Html ''xy'')), (RenderPatch ''c.md'', Inr (Html ''doc''))], {})
   \<and> init_remaining {} [''a.go'', ''c.md''] = dom (patchByName scenario)
   \<and> card {''c.md''} \<le> card (dom (patchByName scenario))
   \<and> set (claimed [(RenderPatch ''a.go'', Inr (Html ''xy''))]) \<inter> {''c.md''} = {}"
proof -
  have keys: "range_order (dom (patchByName scenario)) [''a.go'', ''c.md'']"
    by (auto simp: range_order_def scenario_simps)
  have run: "exec scenario (init_remaining {} [''a.go'', ''c.md'']) [RenderPatch ''a.go'']
       = ([(RenderPatch ''a.go'', Inr (Html ''xy''))], {''c.md''})"
    by (simp add: call_func_def renderPatch_def scenario_simps sample_Encode_simps insert_Diff_if)
  have step: "call_func scenario {''c.md''} (RenderPatch ''c.md'') = (Inr (Html ''doc''), {})"
    by (simp add: call_func_def renderPatch_def scenario_simps sample_Encode_simps)
  have later: "exec scenario {} [RenderPatch ''a.go'', RenderPatch ''c.md'']
       = ([(RenderPatch ''a.go'', Inr (Html ''xy'')), (RenderPatch ''c.md'', Inr (Html ''doc''))], {})"
    by (simp add: call_func_def renderPatch_def scenario_simps sample_Encode_simps)
  note shrinks = remaining_only_shrinks [OF keys run step later]
  from shrinks have a: "init_remaining {} [''a.go'', ''c.md''] = dom (patchByName scenario)"
    by (elim conjE)
  from shrinks have b: "card {''c.md''} \<le> card (dom (patchByName scenario))"
    by (elim conjE)
  from shrinks
  have c: "set (claimed [(RenderPatch ''a.go'', Inr (Html ''xy''))]) \<inter> {''c.md''} = {}"
    by (elim conjE)
  show ?thesis by (intro conjI) (fact keys run step later a b c)+
qed

subsection \<open>C7: claiming twice, and claiming an absent path\<close>

text \<open>
  C7 says that claiming a path that is not in \<open>remaining\<close> is never an error, also when
  the path never was a key. \<open>README\<close> is no key of the index of the scenario, and claiming
  it returns an error.
\<close>

theorem absent_key_claim_counterexample:
  "renderPatch (patchByName scenario) (Encode scenario) (Render scenario) {''c.md''} ''README''
     = (Inl (FindFilePatch ''README''), {''c.md''})"
  by (simp add: renderPatch_def scenario_simps)

text \<open>
  C7, as the code has it. Claiming a path twice leaves \<open>remaining\<close> as claiming it once
  does, and the second call returns what the first returned. Claiming a path that is
  not in \<open>remaining\<close> leaves \<open>remaining\<close> unchanged. A path that is a key of the index is
  never answered with the lookup error, so claiming an already claimed path again is
  no error; a path that never was a key is answered with the lookup error.
\<close>

theorem claim_idempotent:
  "snd (renderPatch idx enc h (snd (renderPatch idx enc h r p)) p) = snd (renderPatch idx enc h r p)
   \<and> fst (renderPatch idx enc h (snd (renderPatch idx enc h r p)) p) = fst (renderPatch idx enc h r p)
   \<and> (p \<notin> r \<longrightarrow> snd (renderPatch idx enc h r p) = r)
   \<and> (p \<in> dom idx \<longrightarrow> fst (renderPatch idx enc h r p) \<noteq> Inl (FindFilePatch p))
   \<and> (p \<notin> dom idx \<longrightarrow> renderPatch idx enc h r p = (Inl (FindFilePatch p), r))"
  by (auto simp: renderPatch_cases)

theorem claim_idempotent_witness:
  "snd (renderPatch (patchByName scenario) (Encode scenario) (Render scenario)
          {''a.go'', ''c.md''} ''a.go'') = {''c.md''}
   \<and> ''a.go'' \<notin> {''c.md''} \<and> ''a.go'' \<in> dom (patchByName scenario)
   \<and> renderPatch (patchByName scenario) (Encode scenario) (Render scenario) {''c.md''} ''a.go''
       = (Inr ''xy'', {''c.md''})
   \<and> ''b.go'' \<notin> dom (patchByName scenario)
   \<and> renderPatch (patchByName scenario) (Encode scenario) (Render scenario) {''c.md''} ''b.go''
       = (Inl (FindFilePatch ''b.go''), {''c.md''})"
proof -
  let ?rp = "renderPatch (patchByName scenario) (Encode scenario) (Render scenario)"
  have once: "?rp {''a.go'', ''c.md''} ''a.go'' = (Inr ''xy'', {''c.md''})"
    by (simp add: renderPatch_def scenario_simps sample_Encode_simps insert_Diff_if)
  have a: "''a.go'' \<notin> {''c.md''}" "''a.go'' \<in> dom (patchByName scenario)"
    "''b.go'' \<notin> dom (patchByName scenario)"
    by (simp_all add: scenario_simps)
  from claim_idempotent [of "patchByName scenario" "Encode scenario" "Render scenario"
      "{''a.go'', ''c.md''}" "''a.go''"] once
  have twice: "?rp {''c.md''} ''a.go'' = (Inr ''xy'', {''c.md''})"
    by (simp add: prod_eq_iff)
  from claim_idempotent [of "patchByName scenario" "Encode scenario" "Render scenario"
      "{''c.md''}" "''b.go''"] a
  have miss: "?rp {''c.md''} ''b.go'' = (Inl (FindFilePatch ''b.go''), {''c.md''})"
    by simp
  from once twice miss a show ?thesis by simp
qed

subsection \<open>C8: glob expansion over the top-level entries\<close>

text \<open>
  C8. When \<open>filepath.Match\<close> reports no malformed pattern on the entries of the target
  tree, \<open>expandGlob\<close> returns the names of the entries that match, in the order of the
  listing. The result depends on the names of these top-level entries only: a
  listing with the same names, whatever the entries are, gives the same result. The
  call leaves \<open>remaining\<close> as it was, and a pattern that matches no entry yields the
  empty list.
\<close>

theorem expandGlob_flat:
  assumes ok: "\<forall>e\<in>set (targetEntries C). Match C g (Name e) \<noteq> None"
    and names: "map Name es = map Name (targetEntries C)"
  shows "expandGlob (Match C) (targetEntries C) g
           = Inr (filter (\<lambda>name. Match C g name = Some True) (map Name (targetEntries C)))
       \<and> subseq (filter (\<lambda>name. Match C g name = Some True) (map Name (targetEntries C)))
           (map Name (targetEntries C))
       \<and> expandGlob (Match C) es g = expandGlob (Match C) (targetEntries C) g
       \<and> call_func C r (ExpandGlob g)
           = (Inr (Paths (filter (\<lambda>name. Match C g name = Some True) (map Name (targetEntries C)))), r)
       \<and> ((\<forall>e\<in>set (targetEntries C). Match C g (Name e) = Some False) \<longrightarrow>
            call_func C r (ExpandGlob g) = (Inr (Paths []), r))"
proof -
  let ?out = "filter (\<lambda>name. Match C g name = Some True) (map Name (targetEntries C))"
  from expandGlob_loop_ok [where m = "Match C" and g = g and es = "targetEntries C"
      and i = 0 and out = "[]", OF ok]
  have a: "expandGlob (Match C) (targetEntries C) g = Inr ?out"
    by (simp add: expandGlob_def)
  have b: "subseq ?out (map Name (targetEntries C))" by simp
  from expandGlob_loop_names [OF names]
  have c: "expandGlob (Match C) es g = expandGlob (Match C) (targetEntries C) g"
    by (simp add: expandGlob_def)
  from a have d: "call_func C r (ExpandGlob g) = (Inr (Paths ?out), r)"
    by (simp add: call_func_def)
  have e: "(\<forall>e\<in>set (targetEntries C). Match C g (Name e) = Some False) \<longrightarrow>
            call_func C r (ExpandGlob g) = (Inr (Paths []), r)"
  proof
    assume "\<forall>e\<in>set (targetEntries C). Match C g (Name e) = Some False"
    then have "?out = []" by (auto simp: filter_empty_conv)
    with d show "call_func C r (ExpandGlob g) = (Inr (Paths []), r)" by simp
  qed
  from a b c d e show ?thesis by blast
qed

theorem expandGlob_flat_witness:
  "Match scenario ''*.go'' ''a.go'' = Some True \<and> Match scenario ''*.go'' ''b.go'' = Some True
   \<and> Match scenario ''*.go'' ''c.md'' = Some False
   \<and> map Name [\<lparr>Name = ''a.go'', EntryMode = 0x4000, EntryHash = ''1111''\<rparr>,
               entry_named ''b.go'', entry_named ''c.md''] = map Name (targetEntries scenario)
   \<and> expandGlob (Match scenario) (targetEntries scenario) ''*.go'' = Inr [''a.go'', ''b.go'']
   \<and> expandGlob (Match scenario) [\<lparr>Name = ''a.go'', EntryMode = 0x4000, EntryHash = ''1111''\<rparr>,
               entry_named ''b.go'', entry_named ''c.md''] ''*.go'' = Inr [''a.go'', ''b.go'']
   \<and> Match scenario ''*.txt'' ''a.go'' = Some False \<and> Match scenario ''*.txt'' ''b.go'' = Some False
   \<and> Match scenario ''*.txt'' ''c.md'' = Some False
   \<and> call_func scenario {''a.go'', ''c.md''} (ExpandGlob ''*.txt'') = (Inr (Paths []), {''a.go'', ''c.md''})"
proof -
  let ?es = "[\<lparr>Name = ''a.go'', EntryMode = 0x4000, EntryHash = ''1111''\<rparr>,
               entry_named ''b.go'', entry_named ''c.md'']"
  have m: "Match scenario ''*.go'' ''a.go'' = Some True" "Match scenario ''*.go'' ''b.go'' = Some True"
    "Match scenario ''*.go'' ''c.md'' = Some False"
    "Match scenario ''*.txt'' ''a.go'' = Some False" "Match scenario ''*.txt'' ''b.go'' = Some False"
    "Match scenario ''*.txt'' ''c.md'' = Some False"
    by (simp_all only: scenario_simps sample_Match_scenario)
  have names: "map Name ?es = map Name (targetEntries scenario)"
    by (simp add: scenario_simps entry_named_def)
  have ok: "\<forall>e\<in>set (targetEntries scenario). Match scenario ''*.go'' (Name e) \<noteq> None"
    by (simp add: scenario_simps entry_named_def sample_Match_scenario del: not_None_eq)
  have ok': "\<forall>e\<in>set (targetEntries scenario). Match scenario ''*.txt'' (Name e) \<noteq> None"
    and none: "\<forall>e\<in>set (targetEntries scenario). Match scenario ''*.txt'' (Name e) = Some False"
    by (simp_all add: scenario_simps entry_named_def sample_Match_scenario del: not_None_eq)
  note go = expandGlob_flat [OF ok names, of "{}"]
  from go have a: "expandGlob (Match scenario) (targetEntries scenario) ''*.go'' = Inr [''a.go'', ''b.go'']"
    by (simp add: scenario_simps entry_named_def sample_Match_scenario)
  from go a have b: "expandGlob (Match scenario) ?es ''*.go'' = Inr [''a.go'', ''b.go'']"
    by simp
  note notxt = expandGlob_flat [OF ok' refl, of "{''a.go'', ''c.md''}"]
  from notxt none
  have c: "call_func scenario {''a.go'', ''c.md''} (ExpandGlob ''*.txt'') = (Inr (Paths []), {''a.go'', ''c.md''})"
    by blast
  show ?thesis by (intro conjI) (fact m names a b c)+
qed

subsection \<open>C9: malformed glob patterns\<close>




subsection \<open>C10: renderPatch claims a path only on success\<close>

text \<open>
  C10. A call of \<open>renderPatch\<close> has one of two outcomes. Either it returns an error,
  because the path has no patch in the index or because encoding the patch failed, and
  then \<open>remaining\<close> is what it was before the call; or the patch was found and encoded,
  the rendered diff is returned, and the path has been deleted from \<open>remaining\<close>. So
  the deletion happens only after the diff has been encoded.
\<close>

theorem renderPatch_claims_on_success:
  assumes "renderPatch idx enc h r p = (res, r')"
  shows "(\<exists>e. res = Inl e \<and> r' = r \<and>
            (idx p = None \<or> (\<exists>fp. idx p = Some fp \<and> enc (FilePatch fp) = None)))
       \<or> (\<exists>fp out. idx p = Some fp \<and> enc (FilePatch fp) = Some out \<and>
            res = Inr (h out) \<and> r' = r - {p})"
  using assms by (auto simp: renderPatch_def split: option.splits)

text \<open>
  In the scenario, with an encoder that fails, rendering \<open>a.go\<close> leaves both paths
  remaining; with the encoder of the examples it returns the diff and removes \<open>a.go\<close>.
\<close>

theorem renderPatch_claims_on_success_witness:
  "renderPatch (patchByName scenario) (\<lambda>p. None) (Render scenario) {''a.go'', ''c.md''} ''a.go''
     = (Inl EncodeFailed, {''a.go'', ''c.md''})
   \<and> renderPatch (patchByName scenario) (Encode scenario) (Render scenario)
       {''a.go'', ''c.md''} ''a.go''
     = (Inr ''xy'', {''c.md''})"
proof -
  have e: "renderPatch (patchByName scenario) (\<lambda>p. None) (Render scenario)
      {''a.go'', ''c.md''} ''a.go'' = (Inl EncodeFailed, {''a.go'', ''c.md''})"
    by (simp add: renderPatch_def scenario_simps)
  have s: "renderPatch (patchByName scenario) (Encode scenario) (Render scenario)
      {''a.go'', ''c.md''} ''a.go'' = (Inr ''xy'', {''c.md''})"
    by (simp add: renderPatch_def scenario_simps sample_Encode_simps insert_Diff_if)
  from renderPatch_claims_on_success [OF e] renderPatch_claims_on_success [OF s] e s
  show ?thesis by simp
qed

end
